theory Spec2Isabelle
  imports Main "HOL-Library.Finite_Map" "HOL-Library.FSet"
    "HOL-Library.List_Lexorder" "HOL-Library.Char_ord"
begin

section \<open>Data model\<close>

text \<open>
  The program is \<^verbatim>\<open>src/app.py\<close>. A Python \<^verbatim>\<open>str\<close> is a \<open>string\<close>; with
  \<open>List_Lexorder\<close> and \<open>Char_ord\<close> the order \<open>\<le>\<close> on strings is the
  lexicographic order by character code, which is the order of Python's
  \<^verbatim>\<open>sorted\<close> on \<^verbatim>\<open>str\<close>.

  Exceptions are values: a function that can raise returns \<open>py_exception + 'a\<close>.
\<close>

datatype py_exception =
    FileNotFoundError string
  | PermissionError string
  | KeyError string
  | OverflowError string
  | ValueError string
  | OSError string

text \<open>\<^verbatim>\<open>str(e)\<close>: the message the exception carries.\<close>

fun exception_str :: "py_exception \<Rightarrow> string" where
  "exception_str (FileNotFoundError m) = m"
| "exception_str (PermissionError m) = m"
| "exception_str (KeyError m) = m"
| "exception_str (OverflowError m) = m"
| "exception_str (ValueError m) = m"
| "exception_str (OSError m) = m"

text \<open>
  The dictionary built by \<^verbatim>\<open>get_file_info\<close>. The differ reads it with
  \<^verbatim>\<open>.get\<close>, for which a missing key and a stored \<^verbatim>\<open>None\<close> are the same: both
  are \<open>None\<close> here. The key \<^verbatim>\<open>"size"\<close> is the field \<open>size'\<close>;
  \<^verbatim>\<open>"error"\<close> is present only in the record of a failed stat.
\<close>

record file_info =
  name :: string
  relpath :: string
  size' :: "string option"
  created :: "string option"
  modified :: "string option"
  accessed :: "string option"
  is_file :: bool
  error :: "string option"

text \<open>A Python \<^verbatim>\<open>dict\<close> from path strings to records: a finite map.\<close>

type_synonym files = "(string, file_info) fmap"

text \<open>The dictionary returned by \<^verbatim>\<open>compare\<close>.\<close>

record diff_result =
  added :: "string list"
  deleted :: "string list"
  changed :: "string list"
  unchanged :: "string list"

section \<open>Size formatting\<close>

text \<open>
  \<^verbatim>\<open>human_readable_size\<close> starts from the \<^verbatim>\<open>int\<close> \<^verbatim>\<open>st_size\<close> and divides by
  1024 with \<^verbatim>\<open>/=\<close>, which gives a \<^verbatim>\<open>float\<close> (an IEEE binary64). The values it
  computes are modelled exactly: \<open>PyInt n\<close> is the integer \<open>n\<close>, and
  \<open>PyFloat m k\<close> is the double \<open>m / 1024 ^ k\<close>, where \<open>m\<close> is an integer that a
  double holds exactly. Dividing an integer by a power of two rounds the integer
  to 53 significant bits (ties to even) and is exact afterwards.
\<close>

datatype pynum = PyInt int | PyFloat int nat

fun bit_length :: "nat \<Rightarrow> nat" where
  "bit_length n = (if n = 0 then 0 else Suc (bit_length (n div 2)))"

declare bit_length.simps [simp del]

text \<open>The integer nearest to \<open>a / b\<close>, ties to the even one (\<open>0 \<le> a\<close>, \<open>0 < b\<close>).\<close>

definition round_half_even :: "int \<Rightarrow> int \<Rightarrow> int" where
  "round_half_even a b =
     (let q = a div b; r = a mod b
      in if b < 2 * r \<or> (2 * r = b \<and> odd q) then q + 1 else q)"

text \<open>The double nearest to the integer \<open>n\<close>, as an integer.\<close>

definition round_to_double :: "int \<Rightarrow> int" where
  "round_to_double n =
     (let a = \<bar>n\<bar>; e = bit_length (nat a) - 53
      in sgn n * (round_half_even a (2 ^ e) * 2 ^ e))"

text \<open>\<^verbatim>\<open>size_in_bytes < 1024\<close>: Python compares an int or a float with an int exactly.\<close>

fun lt_1024 :: "pynum \<Rightarrow> bool" where
  "lt_1024 (PyInt n) = (n < 1024)"
| "lt_1024 (PyFloat m k) = (m < 1024 * 1024 ^ k)"

text \<open>
  \<^verbatim>\<open>size_in_bytes /= 1024\<close>. On an int it is true division, correctly rounded, and
  raises \<^verbatim>\<open>OverflowError\<close> when the quotient is beyond the doubles. On the floats
  of the loop, which are 1024 or more, it is exact.
\<close>

fun div_1024 :: "pynum \<Rightarrow> py_exception + pynum" where
  "div_1024 (PyInt n) =
     (let m = round_to_double n
      in if 2 ^ 1024 * 1024 \<le> \<bar>m\<bar>
         then Inl (OverflowError ''integer division result too large for a float'')
         else Inr (PyFloat m 1))"
| "div_1024 (PyFloat m k) = Inr (PyFloat m (Suc k))"

text \<open>Decimal digits of a natural number, as \<^verbatim>\<open>str\<close> prints them.\<close>

definition digit_char :: "nat \<Rightarrow> char" where
  "digit_char d = ''0123456789'' ! d"

fun dec :: "nat \<Rightarrow> string" where
  "dec n = (if n < 10 then [digit_char n] else dec (n div 10) @ [digit_char (n mod 10)])"

declare dec.simps [simp del]

definition dec2 :: "nat \<Rightarrow> string" where
  "dec2 d = [digit_char (d div 10), digit_char (d mod 10)]"

text \<open>The text of \<open>q\<close> hundredths: integer part, a point, two digits.\<close>

definition hundredths :: "int \<Rightarrow> string" where
  "hundredths q = dec (nat (q div 100)) @ ''.'' @ dec2 (nat (q mod 100))"

text \<open>
  \<^verbatim>\<open>f"{x:.2f}"\<close> of the double \<open>m / 1024 ^ k\<close>: the decimal with two places nearest
  to the double's exact value, ties to even, with the sign of the double.
\<close>

definition format_float :: "int \<Rightarrow> nat \<Rightarrow> string" where
  "format_float m k =
     (if m < 0 then ''-'' else []) @
     hundredths (round_half_even (100 * \<bar>m\<bar>) (1024 ^ k))"

text \<open>
  \<^verbatim>\<open>f"{size_in_bytes:.2f}"\<close>. An int is converted to a float first, which raises
  \<^verbatim>\<open>OverflowError\<close> beyond the doubles.
\<close>

fun format_2f :: "pynum \<Rightarrow> py_exception + string" where
  "format_2f (PyInt n) =
     (let m = round_to_double n
      in if 2 ^ 1024 \<le> \<bar>m\<bar>
         then Inl (OverflowError ''int too large to convert to float'')
         else Inr (format_float m 0))"
| "format_2f (PyFloat m k) = Inr (format_float m k)"

text \<open>
  The loop \<^verbatim>\<open>for unit in ['B', 'KB', 'MB', 'GB', 'TB']\<close> and the
  \<^verbatim>\<open>return f"{size_in_bytes:.2f} PB"\<close> after it.
\<close>

fun hrs_loop :: "string list \<Rightarrow> pynum \<Rightarrow> py_exception + string" where
  "hrs_loop [] v =
     (case format_2f v of Inl e \<Rightarrow> Inl e | Inr s \<Rightarrow> Inr (s @ '' PB''))"
| "hrs_loop (unit # units) v =
     (if lt_1024 v
      then (case format_2f v of Inl e \<Rightarrow> Inl e | Inr s \<Rightarrow> Inr (s @ '' '' @ unit))
      else (case div_1024 v of Inl e \<Rightarrow> Inl e | Inr v' \<Rightarrow> hrs_loop units v'))"

definition human_readable_size :: "int option \<Rightarrow> py_exception + string option" where
  "human_readable_size size_in_bytes =
     (case size_in_bytes of
        None \<Rightarrow> Inr None
      | Some n \<Rightarrow>
          (case hrs_loop [''B'', ''KB'', ''MB'', ''GB'', ''TB''] (PyInt n) of
             Inl e \<Rightarrow> Inl e
           | Inr s \<Rightarrow> Inr (Some s)))"

text \<open>The six unit suffixes, in the order of their sizes.\<close>

definition size_units :: "string list" where
  "size_units = [''B'', ''KB'', ''MB'', ''GB'', ''TB'', ''PB'']"

text \<open>
  The words of the specification, for comparison with \<open>human_readable_size\<close>:
  the units (by their index in \<open>size_units\<close>) in which the count, scaled by
  powers of 1024, is below 1024, and "the largest unit such that the scaled
  value is below 1024".
\<close>

definition spec_units_below :: "int \<Rightarrow> nat list" where
  "spec_units_below n = filter (\<lambda>k. n < 1024 * 1024 ^ k) [0..<6]"

definition spec_largest_unit :: "int \<Rightarrow> string option" where
  "spec_largest_unit n =
     (if spec_units_below n = [] then None
      else Some (size_units ! last (spec_units_below n)))"

section \<open>The platform\<close>

text \<open>
  What the program calls and does not define: \<^verbatim>\<open>pathlib\<close>, \<^verbatim>\<open>os.walk\<close>, the file
  system behind them and \<^verbatim>\<open>datetime\<close>. They are parameters, gathered in a
  record; \<open>'p\<close> is the type of \<^verbatim>\<open>Path\<close> objects and \<open>'t\<close> the type of the
  timestamps of a stat result.

  \<^item> \<open>Path s\<close> is \<^verbatim>\<open>Path(s)\<close>, \<open>joinpath p s\<close> is \<^verbatim>\<open>p / s\<close>, \<open>path_str p\<close> is
    \<^verbatim>\<open>str(p)\<close> and \<open>path_name p\<close> is \<^verbatim>\<open>p.name\<close>.
  \<^item> \<open>path_stat p\<close> is \<^verbatim>\<open>p.stat()\<close>, which raises on a file it cannot read.
  \<^item> \<open>path_exists p\<close> and \<open>path_is_file p\<close> are \<^verbatim>\<open>p.exists()\<close> and
    \<^verbatim>\<open>p.is_file()\<close>. Both stat the path; by pathlib's documentation they return
    \<^verbatim>\<open>False\<close> for a path that does not exist or is a broken symlink, and
    "other errors (such as permission errors) are propagated": they can raise.
  \<^item> \<open>os_walk p\<close> is the sequence of triples \<^verbatim>\<open>(root, dirs, files)\<close> that
    \<^verbatim>\<open>os.walk(p)\<close> yields.
  \<^item> \<open>strftime_local ts\<close> is
    \<^verbatim>\<open>datetime.fromtimestamp(ts).strftime("%Y-%m-%d %H:%M:%S")\<close>.
\<close>

record 't stat_result =
  st_size :: int
  st_ctime :: 't
  st_mtime :: 't
  st_atime :: 't

record ('p, 't) platform =
  Path :: "string \<Rightarrow> 'p"
  joinpath :: "'p \<Rightarrow> string \<Rightarrow> 'p"
  path_str :: "'p \<Rightarrow> string"
  path_name :: "'p \<Rightarrow> string"
  path_exists :: "'p \<Rightarrow> py_exception + bool"
  path_is_file :: "'p \<Rightarrow> py_exception + bool"
  path_stat :: "'p \<Rightarrow> py_exception + 't stat_result"
  os_walk :: "'p \<Rightarrow> (string \<times> string list \<times> string list) list"
  strftime_local :: "'t \<Rightarrow> py_exception + string"

section \<open>The metadata extractor\<close>

text \<open>\<^verbatim>\<open>timestamp\<close>: any exception of the conversion gives the empty string.\<close>

definition timestamp :: "('p, 't) platform \<Rightarrow> 't \<Rightarrow> string" where
  "timestamp pf ts = (case strftime_local pf ts of Inl e \<Rightarrow> [] | Inr s \<Rightarrow> s)"

text \<open>
  The \<^verbatim>\<open>except Exception as e\<close> branch of \<^verbatim>\<open>get_file_info\<close>. It calls
  \<^verbatim>\<open>path.is_file()\<close> again, outside any \<^verbatim>\<open>try\<close>: an exception of that call
  leaves \<^verbatim>\<open>get_file_info\<close>.
\<close>

definition file_info_failed ::
  "('p, 't) platform \<Rightarrow> 'p \<Rightarrow> py_exception \<Rightarrow> py_exception + file_info" where
  "file_info_failed pf path e =
     (case path_is_file pf path of
        Inl e' \<Rightarrow> Inl e'
      | Inr b \<Rightarrow>
          Inr \<lparr>name = path_name pf path, relpath = path_str pf path,
               size' = None, created = None, modified = None, accessed = None,
               is_file = b, error = Some (exception_str e)\<rparr>)"

text \<open>
  \<^verbatim>\<open>get_file_info\<close>. In the \<^verbatim>\<open>try\<close> block the calls that can raise are
  \<^verbatim>\<open>path.stat()\<close>, \<^verbatim>\<open>human_readable_size\<close> and \<^verbatim>\<open>path.is_file()\<close>, in this
  order; \<^verbatim>\<open>timestamp\<close> catches its own exceptions.
\<close>

definition get_file_info :: "('p, 't) platform \<Rightarrow> 'p \<Rightarrow> py_exception + file_info" where
  "get_file_info pf path =
     (case path_stat pf path of
        Inl e \<Rightarrow> file_info_failed pf path e
      | Inr s \<Rightarrow>
         (case human_readable_size (Some (st_size s)) of
            Inl e \<Rightarrow> file_info_failed pf path e
          | Inr sz \<Rightarrow>
             (case path_is_file pf path of
                Inl e \<Rightarrow> file_info_failed pf path e
              | Inr b \<Rightarrow>
                  Inr \<lparr>name = path_name pf path, relpath = path_str pf path,
                       size' = sz,
                       created = Some (timestamp pf (st_ctime s)),
                       modified = Some (timestamp pf (st_mtime s)),
                       accessed = Some (timestamp pf (st_atime s)),
                       is_file = b, error = None\<rparr>)))"

section \<open>The tree scanner\<close>

text \<open>\<^verbatim>\<open>s.startswith(prefix)\<close>.\<close>

definition startswith :: "string \<Rightarrow> string \<Rightarrow> bool" where
  "startswith s pre = (take (length pre) s = pre)"

text \<open>\<^verbatim>\<open>fpath = Path(root) / fname\<close>.\<close>

definition file_path :: "('p, 't) platform \<Rightarrow> string \<Rightarrow> string \<Rightarrow> 'p" where
  "file_path pf root fname = joinpath pf (Path pf root) fname"

text \<open>
  The inner loop \<^verbatim>\<open>for fname in files\<close> of \<^verbatim>\<open>scan_folder\<close>, on the dictionary
  \<^verbatim>\<open>results\<close>.
\<close>

fun scan_files ::
  "('p, 't) platform \<Rightarrow> string \<Rightarrow> string list \<Rightarrow> files \<Rightarrow> py_exception + files" where
  "scan_files pf root [] results = Inr results"
| "scan_files pf root (fname # fnames) results =
     (if startswith fname ''~$'' then scan_files pf root fnames results
      else
        (let fpath = file_path pf root fname
         in case get_file_info pf fpath of
              Inl e \<Rightarrow> Inl e
            | Inr info \<Rightarrow>
                scan_files pf root fnames (fmupd (path_str pf fpath) info results)))"

text \<open>The outer loop \<^verbatim>\<open>for root, dirs, files in os.walk(p)\<close>.\<close>

fun scan_walk ::
  "('p, 't) platform \<Rightarrow> (string \<times> string list \<times> string list) list \<Rightarrow> files
    \<Rightarrow> py_exception + files" where
  "scan_walk pf [] results = Inr results"
| "scan_walk pf ((root, dirs, fnames) # triples) results =
     (case scan_files pf root fnames results of
        Inl e \<Rightarrow> Inl e
      | Inr results' \<Rightarrow> scan_walk pf triples results')"

definition scan_folder :: "('p, 't) platform \<Rightarrow> string \<Rightarrow> py_exception + files" where
  "scan_folder pf folder_path =
     (let p = Path pf folder_path
      in case path_exists pf p of
           Inl e \<Rightarrow> Inl e
         | Inr ex \<Rightarrow>
             if \<not> ex then Inl (FileNotFoundError (''Path not found: '' @ folder_path))
             else scan_walk pf (os_walk pf p) fmempty)"

text \<open>
  For the properties of the scanner: the files that the traversal meets, as pairs
  of the \<^verbatim>\<open>root\<close> and the \<^verbatim>\<open>fname\<close> of the two loops, in the order of the
  loops; the test that skips a file; the \<^verbatim>\<open>fpath\<close> and the dictionary key of
  a pair; and the two loops as one loop over the pairs that are not skipped.
\<close>

definition walk_entries ::
  "(string \<times> string list \<times> string list) list \<Rightarrow> (string \<times> string) list" where
  "walk_entries triples =
     concat (map (\<lambda>(root, dirs, fnames). map (Pair root) fnames) triples)"

definition encountered :: "('p, 't) platform \<Rightarrow> string \<Rightarrow> (string \<times> string) list" where
  "encountered pf folder_path = walk_entries (os_walk pf (Path pf folder_path))"

definition skipped :: "string \<times> string \<Rightarrow> bool" where
  "skipped x = startswith (snd x) ''~$''"

definition entry_path :: "('p, 't) platform \<Rightarrow> string \<times> string \<Rightarrow> 'p" where
  "entry_path pf x = file_path pf (fst x) (snd x)"

definition entry_key :: "('p, 't) platform \<Rightarrow> string \<times> string \<Rightarrow> string" where
  "entry_key pf x = path_str pf (entry_path pf x)"

fun scan_entries ::
  "('p, 't) platform \<Rightarrow> (string \<times> string) list \<Rightarrow> files \<Rightarrow> py_exception + files" where
  "scan_entries pf [] results = Inr results"
| "scan_entries pf (x # xs) results =
     (case get_file_info pf (entry_path pf x) of
        Inl e \<Rightarrow> Inl e
      | Inr info \<Rightarrow> scan_entries pf xs (fmupd (entry_key pf x) info results))"

section \<open>The baseline store\<close>

text \<open>
  The directory \<^verbatim>\<open>BASE_DIR\<close> is a map from file names to file contents. What the
  program takes from libraries is a record of parameters: \<open>sha1_hexdigest s\<close> is
  \<^verbatim>\<open>hashlib.sha1(s.encode("utf-8")).hexdigest()\<close>, \<open>json_dumps\<close> is the text that
  \<^verbatim>\<open>json.dump(..., indent=2, ensure_ascii=False)\<close> writes and \<open>json_loads\<close> is
  \<^verbatim>\<open>json.load\<close> on a file's text.
\<close>

record snapshot =
  folder :: string
  created_at :: string
  files :: files

record codec =
  sha1_hexdigest :: "string \<Rightarrow> string"
  json_dumps :: "snapshot \<Rightarrow> string"
  json_loads :: "string \<Rightarrow> py_exception + snapshot"

type_synonym base_dir = "string \<rightharpoonup> string"

text \<open>
  What can go wrong while \<^verbatim>\<open>save_baseline_for\<close> writes: nothing, \<^verbatim>\<open>open\<close>
  raises, or a write raises after \<open>k\<close> characters of the text have reached
  the file.
\<close>

datatype io_fault = NoFault | OpenFails py_exception | WriteFails nat py_exception

definition safe_name_hash :: "codec \<Rightarrow> string \<Rightarrow> string" where
  "safe_name_hash cd path_s = sha1_hexdigest cd path_s"

text \<open>\<^verbatim>\<open>f"{key}.json"\<close>, the name of the file in \<^verbatim>\<open>BASE_DIR\<close>.\<close>

definition baseline_file :: "codec \<Rightarrow> string \<Rightarrow> string" where
  "baseline_file cd path_s = safe_name_hash cd path_s @ ''.json''"

text \<open>
  \<^verbatim>\<open>save_baseline_for\<close>: \<^verbatim>\<open>open(fp, "w")\<close> creates the file or truncates it,
  then \<^verbatim>\<open>json.dump\<close> writes the text into it. \<open>now\<close> is
  \<^verbatim>\<open>datetime.now().isoformat()\<close>. The result is the directory afterwards and
  what the call returns or raises.
\<close>

definition save_baseline_for ::
  "codec \<Rightarrow> io_fault \<Rightarrow> string \<Rightarrow> base_dir \<Rightarrow> string \<Rightarrow> files
    \<Rightarrow> base_dir \<times> (py_exception + string)" where
  "save_baseline_for cd fault now dir path_s data =
     (let fp = baseline_file cd path_s;
          text = json_dumps cd \<lparr>folder = path_s, created_at = now, files = data\<rparr>
      in case fault of
           OpenFails e \<Rightarrow> (dir, Inl e)
         | WriteFails k e \<Rightarrow> (dir(fp \<mapsto> take k text), Inl e)
         | NoFault \<Rightarrow> (dir(fp \<mapsto> text), Inr fp))"

definition load_baseline_for ::
  "codec \<Rightarrow> base_dir \<Rightarrow> string \<Rightarrow> py_exception + snapshot option" where
  "load_baseline_for cd dir path_s =
     (case dir (baseline_file cd path_s) of
        None \<Rightarrow> Inr None
      | Some text \<Rightarrow>
          (case json_loads cd text of
             Inl e \<Rightarrow> Inl e
           | Inr s \<Rightarrow> Inr (Some s)))"

section \<open>The differ\<close>

text \<open>
  The loop \<^verbatim>\<open>for p in common\<close> of \<^verbatim>\<open>compare\<close>, with the two lists it appends to.
  \<^verbatim>\<open>old[p]\<close> and \<^verbatim>\<open>new[p]\<close> raise \<^verbatim>\<open>KeyError\<close> on a missing key.
\<close>

fun classify ::
  "files \<Rightarrow> files \<Rightarrow> string list \<Rightarrow> string list \<times> string list
    \<Rightarrow> py_exception + string list \<times> string list" where
  "classify old new [] (chg, unchg) = Inr (chg, unchg)"
| "classify old new (p # ps) (chg, unchg) =
     (case fmlookup old p of
        None \<Rightarrow> Inl (KeyError p)
      | Some ov \<Rightarrow>
         (case fmlookup new p of
            None \<Rightarrow> Inl (KeyError p)
          | Some nv \<Rightarrow>
             if size' ov \<noteq> size' nv \<or> modified ov \<noteq> modified nv
             then classify old new ps (chg @ [p], unchg)
             else classify old new ps (chg, unchg @ [p])))"

definition compare :: "files \<Rightarrow> files \<Rightarrow> py_exception + diff_result" where
  "compare old new =
     (let old_set = fmdom old;
          new_set = fmdom new;
          added_l = sorted_list_of_fset (new_set |-| old_set);
          deleted_l = sorted_list_of_fset (old_set |-| new_set);
          common = sorted_list_of_fset (old_set |\<inter>| new_set)
      in case classify old new common ([], []) of
           Inl e \<Rightarrow> Inl e
         | Inr (chg, unchg) \<Rightarrow>
             Inr \<lparr>added = added_l, deleted = deleted_l,
                  changed = chg, unchanged = unchg\<rparr>)"

text \<open>The test of the loop, on the two dictionaries and a path.\<close>

definition differs :: "files \<Rightarrow> files \<Rightarrow> string \<Rightarrow> bool" where
  "differs old new p =
     (case (fmlookup old p, fmlookup new p) of
        (Some ov, Some nv) \<Rightarrow> size' ov \<noteq> size' nv \<or> modified ov \<noteq> modified nv
      | _ \<Rightarrow> False)"

text \<open>
  The shape of a record that \<^verbatim>\<open>get_file_info\<close> builds when the stat failed:
  \<^verbatim>\<open>error\<close> is set, the size and the three timestamps are \<^verbatim>\<open>None\<close>.
\<close>

definition failed_record :: "file_info \<Rightarrow> bool" where
  "failed_record r =
     (error r \<noteq> None \<and> size' r = None \<and> created r = None \<and>
      modified r = None \<and> accessed r = None)"

section \<open>Example data\<close>

text \<open>Two snapshots of one folder, and the records in them.\<close>

definition ex_info :: "string \<Rightarrow> string \<Rightarrow> string \<Rightarrow> file_info" where
  "ex_info p sz mt =
     \<lparr>name = p, relpath = p, size' = Some sz, created = Some ''2024-01-01 00:00:00'',
      modified = Some mt, accessed = Some ''2024-01-01 00:00:00'', is_file = True,
      error = None\<rparr>"

definition ex_failed_info :: "string \<Rightarrow> file_info" where
  "ex_failed_info p =
     \<lparr>name = p, relpath = p, size' = None, created = None,
      modified = None, accessed = None, is_file = False,
      error = Some ''[Errno 13] Permission denied''\<rparr>"

definition ex_baseline :: files where
  "ex_baseline =
     fmupd ''f.txt'' (ex_info ''f.txt'' ''1.00 KB'' ''2024-01-01 00:00:00'')
    (fmupd ''g.txt'' (ex_info ''g.txt'' ''2.00 KB'' ''2024-01-01 00:00:00'')
    (fmupd ''h.txt'' (ex_failed_info ''h.txt'')
    (fmupd ''k.txt'' (ex_failed_info ''k.txt'')
    (fmupd ''old.txt'' (ex_info ''old.txt'' ''5.00 B'' ''2024-01-01 00:00:00'')
     fmempty))))"

definition ex_current :: files where
  "ex_current =
     fmupd ''f.txt'' (ex_info ''f.txt'' ''1.00 KB'' ''2024-01-01 00:00:05'')
    (fmupd ''g.txt'' (ex_info ''g.txt'' ''2.00 KB'' ''2024-01-01 00:00:00'')
    (fmupd ''h.txt'' (ex_failed_info ''h.txt'')
    (fmupd ''k.txt'' (ex_info ''k.txt'' ''3.00 B'' ''2024-01-01 00:00:00'')
    (fmupd ''new.txt'' (ex_info ''new.txt'' ''7.00 B'' ''2024-01-02 00:00:00'')
     fmempty))))"

definition ex_diff :: diff_result where
  "ex_diff =
     \<lparr>added = [''new.txt''], deleted = [''old.txt''],
      changed = [''f.txt'', ''k.txt''], unchanged = [''g.txt'', ''h.txt'']\<rparr>"

text \<open>
  A platform whose paths are strings. The folder \<^verbatim>\<open>root\<close> holds \<^verbatim>\<open>a.txt\<close>, the
  lock file \<^verbatim>\<open>~$lock.tmp\<close> and the folder \<^verbatim>\<open>sub\<close>; \<^verbatim>\<open>sub/b.txt\<close> is listed by
  the traversal and gone when it is read. In \<open>ex_platform_denied\<close> the file
  \<^verbatim>\<open>sub/b.txt\<close> is there, in a folder that may be listed and not searched: every
  stat of the file raises \<^verbatim>\<open>PermissionError\<close>.
\<close>

definition ex_basename :: "string \<Rightarrow> string" where
  "ex_basename p = rev (takeWhile (\<lambda>c. c \<noteq> CHR ''/'') (rev p))"

definition ex_stat :: "int stat_result" where
  "ex_stat = \<lparr>st_size = 100, st_ctime = 0, st_mtime = 0, st_atime = 0\<rparr>"

definition ex_platform :: "(string, int) platform" where
  "ex_platform =
     \<lparr>Path = (\<lambda>s. s),
      joinpath = (\<lambda>p s. p @ ''/'' @ s),
      path_str = (\<lambda>p. p),
      path_name = ex_basename,
      path_exists = (\<lambda>p. Inr (p \<in> set [''root'', ''root/a.txt'', ''root/~$lock.tmp'', ''root/sub''])),
      path_is_file = (\<lambda>p. Inr (p \<in> set [''root/a.txt'', ''root/~$lock.tmp''])),
      path_stat = (\<lambda>p. if p = ''root/sub/b.txt''
                       then Inl (FileNotFoundError ''[Errno 2] No such file or directory'')
                       else Inr ex_stat),
      os_walk = (\<lambda>p. if p = ''root''
                     then [(''root'', [''sub''], [''a.txt'', ''~$lock.tmp'']),
                           (''root/sub'', [], [''b.txt''])]
                     else []),
      strftime_local = (\<lambda>t. Inr ''2024-01-01 00:00:00'')\<rparr>"

definition ex_denied :: py_exception where
  "ex_denied = PermissionError ''[Errno 13] Permission denied''"

definition ex_platform_denied :: "(string, int) platform" where
  "ex_platform_denied =
     ex_platform
     \<lparr>path_is_file := (\<lambda>p. if p = ''root/sub/b.txt''
                             then Inl ex_denied
                             else path_is_file ex_platform p),
      path_stat := (\<lambda>p. if p = ''root/sub/b.txt''
                          then Inl ex_denied
                          else Inr ex_stat)\<rparr>"

definition ex_scan :: files where
  "ex_scan =
     fmupd ''root/sub/b.txt''
       \<lparr>name = ''b.txt'', relpath = ''root/sub/b.txt'', size' = None, created = None,
        modified = None, accessed = None, is_file = False,
        error = Some ''[Errno 2] No such file or directory''\<rparr>
    (fmupd ''root/a.txt''
       \<lparr>name = ''a.txt'', relpath = ''root/a.txt'', size' = Some ''100.00 B'',
        created = Some ''2024-01-01 00:00:00'', modified = Some ''2024-01-01 00:00:00'',
        accessed = Some ''2024-01-01 00:00:00'', is_file = True, error = None\<rparr>
     fmempty)"

text \<open>
  A baseline directory: the baseline of \<^verbatim>\<open>root\<close> is saved, then a second save for
  the same folder runs out of disk space after nine characters.
\<close>

definition ex_codec :: codec where
  "ex_codec =
     \<lparr>sha1_hexdigest = (\<lambda>s. if s = ''root''
                               then ''dc76e9f0c0006e8f919e0c515c66dbba3982f785''
                               else ''da39a3ee5e6b4b0d3255bfef95601890afd80709''),
      json_dumps = (\<lambda>s. ''{folder: '' @ folder s @ '', created_at: '' @ created_at s @
                         '', files: '' @ dec (length (sorted_list_of_fset (fmdom (files s)))) @ ''}''),
      json_loads = (\<lambda>t. if t = ''{folder: root, created_at: 2024-01-01T00:00:00, files: 5}''
                         then Inr \<lparr>folder = ''root'', created_at = ''2024-01-01T00:00:00'',
                                   files = ex_baseline\<rparr>
                         else Inl (ValueError ''Expecting value''))\<rparr>"

definition ex_dir :: base_dir where
  "ex_dir = fst (save_baseline_for ex_codec NoFault ''2024-01-01T00:00:00'' Map.empty ''root'' ex_baseline)"

definition ex_disk_full :: py_exception where
  "ex_disk_full = OSError ''[Errno 28] No space left on device''"

definition ex_failed_save :: "base_dir \<times> (py_exception + string)" where
  "ex_failed_save =
     save_baseline_for ex_codec (WriteFails 9 ex_disk_full) ''2024-02-01T00:00:00''
       ex_dir ''root'' ex_current"

section \<open>Properties of the differ\<close>

lemma ex_compare: "compare ex_baseline ex_current = Inr ex_diff"
  by code_simp

lemma classify_common:
  "fset_of_list ps |\<subseteq>| fmdom old |\<inter>| fmdom new \<Longrightarrow>
   classify old new ps (chg, unchg) =
     Inr (chg @ filter (differs old new) ps,
          unchg @ filter (\<lambda>p. \<not> differs old new p) ps)"
proof (induction ps arbitrary: chg unchg)
  case Nil
  show ?case by simp
next
  case (Cons p ps)
  from Cons.prems have p: "p |\<in>| fmdom old" "p |\<in>| fmdom new"
    and ps: "fset_of_list ps |\<subseteq>| fmdom old |\<inter>| fmdom new"
    by auto
  from p obtain ov nv where l: "fmlookup old p = Some ov" "fmlookup new p = Some nv"
    by (auto simp: fmlookup_dom_iff)
  show ?case
    using l Cons.IH [OF ps] by (simp add: differs_def)
qed

lemma compare_eq:
  "compare old new =
     Inr \<lparr>added = sorted_list_of_fset (fmdom new |-| fmdom old),
          deleted = sorted_list_of_fset (fmdom old |-| fmdom new),
          changed = filter (differs old new)
            (sorted_list_of_fset (fmdom old |\<inter>| fmdom new)),
          unchanged = filter (\<lambda>p. \<not> differs old new p)
            (sorted_list_of_fset (fmdom old |\<inter>| fmdom new))\<rparr>"
proof -
  have "fset_of_list (sorted_list_of_fset (fmdom old |\<inter>| fmdom new))
          |\<subseteq>| fmdom old |\<inter>| fmdom new"
    by simp
  from classify_common [OF this, of "[]" "[]"] show ?thesis
    by (simp add: compare_def Let_def)
qed

text \<open>
  Claim C1. For every pair of dictionaries, \<^verbatim>\<open>compare\<close> returns, and the four
  lists it returns are pairwise disjoint, their union is the union of the two
  key sets, and no path occurs twice.
\<close>

theorem compare_partition:
  "\<exists>d. compare old new = Inr d \<and>
     set (added d) \<inter> set (deleted d) = {} \<and>
     set (added d) \<inter> set (changed d) = {} \<and>
     set (added d) \<inter> set (unchanged d) = {} \<and>
     set (deleted d) \<inter> set (changed d) = {} \<and>
     set (deleted d) \<inter> set (unchanged d) = {} \<and>
     set (changed d) \<inter> set (unchanged d) = {} \<and>
     set (added d) \<union> set (deleted d) \<union> set (changed d) \<union> set (unchanged d)
       = fmdom' old \<union> fmdom' new \<and>
     distinct (added d @ deleted d @ changed d @ unchanged d)"
proof -
  let ?c = "sorted_list_of_fset (fmdom old |\<inter>| fmdom new)"
  let ?d = "\<lparr>added = sorted_list_of_fset (fmdom new |-| fmdom old),
          deleted = sorted_list_of_fset (fmdom old |-| fmdom new),
          changed = filter (differs old new) ?c,
          unchanged = filter (\<lambda>p. \<not> differs old new p) ?c\<rparr>"
  have d: "compare old new = Inr ?d" by (rule compare_eq)
  have c: "set ?c = fmdom' old \<inter> fmdom' new" "distinct ?c"
    by (auto simp: fmdom'_alt_def sorted_list_of_fset.rep_eq)
  have a: "set (added ?d) = fmdom' new - fmdom' old" "distinct (added ?d)"
    by (auto simp: fmdom'_alt_def sorted_list_of_fset.rep_eq)
  have e: "set (deleted ?d) = fmdom' old - fmdom' new" "distinct (deleted ?d)"
    by (auto simp: fmdom'_alt_def sorted_list_of_fset.rep_eq)
  have ch: "set (changed ?d) = {p \<in> fmdom' old \<inter> fmdom' new. differs old new p}"
    "distinct (changed ?d)"
    using c by auto
  have un: "set (unchanged ?d) = {p \<in> fmdom' old \<inter> fmdom' new. \<not> differs old new p}"
    "distinct (unchanged ?d)"
    using c by auto
  have 1: "set (added ?d) \<inter> set (deleted ?d) = {}" unfolding a e by blast
  have 2: "set (added ?d) \<inter> set (changed ?d) = {}" unfolding a ch by blast
  have 3: "set (added ?d) \<inter> set (unchanged ?d) = {}" unfolding a un by blast
  have 4: "set (deleted ?d) \<inter> set (changed ?d) = {}" unfolding e ch by blast
  have 5: "set (deleted ?d) \<inter> set (unchanged ?d) = {}" unfolding e un by blast
  have 6: "set (changed ?d) \<inter> set (unchanged ?d) = {}" unfolding ch un by blast
  have 7: "set (added ?d) \<union> set (deleted ?d) \<union> set (changed ?d) \<union> set (unchanged ?d)
       = fmdom' old \<union> fmdom' new" unfolding a e ch un by blast
  have 8: "distinct (added ?d @ deleted ?d @ changed ?d @ unchanged ?d)"
    using a(2) e(2) ch(2) un(2) 1 2 3 4 5 6 by (simp add: Int_Un_distrib)
  from d 1 2 3 4 5 6 7 8 show ?thesis by blast
qed

theorem compare_partition_witness:
  "set (added ex_diff) \<union> set (deleted ex_diff) \<union> set (changed ex_diff)
     \<union> set (unchanged ex_diff) = fmdom' ex_baseline \<union> fmdom' ex_current \<and>
   distinct (added ex_diff @ deleted ex_diff @ changed ex_diff @ unchanged ex_diff)"
  using compare_partition [of ex_baseline ex_current] by (simp add: ex_compare)

text \<open>
  Claim C2. For a path present in both dictionaries, \<^verbatim>\<open>compare\<close> puts the path
  in \<^verbatim>\<open>changed\<close> exactly when the two records' \<^verbatim>\<open>size\<close> values differ or their
  \<^verbatim>\<open>modified\<close> values differ, and in \<^verbatim>\<open>unchanged\<close> exactly when they do not.
\<close>

theorem compare_changed_iff:
  assumes "fmlookup old p = Some ov" and "fmlookup new p = Some nv"
  shows "\<exists>d. compare old new = Inr d \<and>
     (p \<in> set (changed d) \<longleftrightarrow> size' ov \<noteq> size' nv \<or> modified ov \<noteq> modified nv) \<and>
     (p \<in> set (unchanged d) \<longleftrightarrow> \<not> (size' ov \<noteq> size' nv \<or> modified ov \<noteq> modified nv))"
proof -
  from assms have "p |\<in>| fmdom old |\<inter>| fmdom new"
    by (auto intro: fmdomI)
  moreover have "differs old new p \<longleftrightarrow> size' ov \<noteq> size' nv \<or> modified ov \<noteq> modified nv"
    using assms by (simp add: differs_def)
  ultimately show ?thesis
    by (simp add: compare_eq)
qed

theorem compare_changed_iff_witness:
  "fmlookup ex_baseline ''f.txt''
     = Some (ex_info ''f.txt'' ''1.00 KB'' ''2024-01-01 00:00:00'') \<and>
   fmlookup ex_current ''f.txt''
     = Some (ex_info ''f.txt'' ''1.00 KB'' ''2024-01-01 00:00:05'') \<and>
   ''f.txt'' \<in> set (changed ex_diff) \<and> ''f.txt'' \<notin> set (unchanged ex_diff)"
proof -
  have b: "fmlookup ex_baseline ''f.txt''
      = Some (ex_info ''f.txt'' ''1.00 KB'' ''2024-01-01 00:00:00'')"
    by (simp add: ex_baseline_def)
  have c: "fmlookup ex_current ''f.txt''
      = Some (ex_info ''f.txt'' ''1.00 KB'' ''2024-01-01 00:00:05'')"
    by (simp add: ex_current_def)
  from compare_changed_iff [OF b c] b c show ?thesis
    by (simp add: ex_compare ex_info_def)
qed

text \<open>
  Claim C7. Each of the four lists that \<^verbatim>\<open>compare\<close> returns is sorted in the
  lexicographic order of the paths.
\<close>

theorem compare_sorted:
  "\<exists>d. compare old new = Inr d \<and>
     sorted (added d) \<and> sorted (deleted d) \<and> sorted (changed d) \<and> sorted (unchanged d)"
  by (simp add: compare_eq sorted_list_of_fset.rep_eq sorted_wrt_filter)

theorem compare_sorted_witness:
  "sorted (added ex_diff) \<and> sorted (deleted ex_diff) \<and>
   sorted (changed ex_diff) \<and> sorted (unchanged ex_diff)"
  using compare_sorted [of ex_baseline ex_current] by (simp add: ex_compare)

text \<open>
  Claim C3, as stated: a path present in both dictionaries, one of whose records
  has \<^verbatim>\<open>error\<close> set, is not put in \<^verbatim>\<open>changed\<close> because of that record. It
  fails: \<^verbatim>\<open>k.txt\<close> could not be read at the baseline and is read now, and
  \<^verbatim>\<open>compare\<close> puts it in \<^verbatim>\<open>changed\<close>, since the \<^verbatim>\<open>None\<close> size of the failed
  record differs from the size of the other.
\<close>

theorem compare_error_counterexample:
  "fmlookup ex_baseline ''k.txt'' = Some (ex_failed_info ''k.txt'') \<and>
   error (ex_failed_info ''k.txt'') = Some ''[Errno 13] Permission denied'' \<and>
   fmlookup ex_current ''k.txt''
     = Some (ex_info ''k.txt'' ''3.00 B'' ''2024-01-01 00:00:00'') \<and>
   compare ex_baseline ex_current = Inr ex_diff \<and>
   ''k.txt'' \<in> set (changed ex_diff)"
proof -
  have "fmlookup ex_baseline ''k.txt'' = Some (ex_failed_info ''k.txt'')"
    by (simp add: ex_baseline_def)
  moreover have "error (ex_failed_info ''k.txt'') = Some ''[Errno 13] Permission denied''"
    by (simp add: ex_failed_info_def)
  moreover have "fmlookup ex_current ''k.txt''
      = Some (ex_info ''k.txt'' ''3.00 B'' ''2024-01-01 00:00:00'')"
    by (simp add: ex_current_def)
  moreover have "''k.txt'' \<in> set (changed ex_diff)"
    by (simp add: ex_diff_def)
  ultimately show ?thesis
    using ex_compare by simp
qed

text \<open>
  Claim C3, amended. \<^verbatim>\<open>compare\<close> does not read \<^verbatim>\<open>error\<close>. For a path present
  in both dictionaries: when both records are records of a failed stat, the path
  is in \<^verbatim>\<open>unchanged\<close> and not in \<^verbatim>\<open>changed\<close>; when one is the record of a failed
  stat and the other has a size, the path is in \<^verbatim>\<open>changed\<close>.
\<close>

theorem compare_failed_records:
  assumes "fmlookup old p = Some ov" and "fmlookup new p = Some nv"
  shows "\<exists>d. compare old new = Inr d \<and>
     (failed_record ov \<and> failed_record nv
        \<longrightarrow> p \<in> set (unchanged d) \<and> p \<notin> set (changed d)) \<and>
     (failed_record ov \<and> size' nv \<noteq> None \<longrightarrow> p \<in> set (changed d)) \<and>
     (size' ov \<noteq> None \<and> failed_record nv \<longrightarrow> p \<in> set (changed d))"
proof -
  from assms have "p |\<in>| fmdom old |\<inter>| fmdom new"
    by (auto intro: fmdomI)
  moreover have "differs old new p \<longleftrightarrow> size' ov \<noteq> size' nv \<or> modified ov \<noteq> modified nv"
    using assms by (simp add: differs_def)
  ultimately show ?thesis
    by (auto simp: compare_eq failed_record_def)
qed

theorem compare_failed_records_witness:
  "fmlookup ex_baseline ''h.txt'' = Some (ex_failed_info ''h.txt'') \<and>
   fmlookup ex_current ''h.txt'' = Some (ex_failed_info ''h.txt'') \<and>
   failed_record (ex_failed_info ''h.txt'') \<and>
   ''h.txt'' \<in> set (unchanged ex_diff) \<and> ''h.txt'' \<notin> set (changed ex_diff)"
proof -
  have b: "fmlookup ex_baseline ''h.txt'' = Some (ex_failed_info ''h.txt'')"
    by (simp add: ex_baseline_def)
  have c: "fmlookup ex_current ''h.txt'' = Some (ex_failed_info ''h.txt'')"
    by (simp add: ex_current_def)
  have f: "failed_record (ex_failed_info ''h.txt'')"
    by (simp add: failed_record_def ex_failed_info_def)
  from compare_failed_records [OF b c] b c f show ?thesis
    by (simp add: ex_compare)
qed

section \<open>Properties of the scanner\<close>

lemma ex_scan_folder: "scan_folder ex_platform ''root'' = Inr ex_scan"
  by code_simp


lemma scan_entries_append:
  "scan_entries pf (xs @ ys) results =
     (case scan_entries pf xs results of
        Inl e \<Rightarrow> Inl e
      | Inr r \<Rightarrow> scan_entries pf ys r)"
  by (induction xs arbitrary: results) (auto split: sum.splits)

lemma scan_files_entries:
  "scan_files pf root fnames results =
     scan_entries pf (filter (\<lambda>x. \<not> skipped x) (map (Pair root) fnames)) results"
  by (induction fnames arbitrary: results)
    (auto simp: skipped_def entry_path_def entry_key_def Let_def split: sum.splits)

lemma scan_walk_entries:
  "scan_walk pf triples results =
     scan_entries pf (filter (\<lambda>x. \<not> skipped x) (walk_entries triples)) results"
proof (induction triples arbitrary: results)
  case Nil
  show ?case by (simp add: walk_entries_def)
next
  case (Cons t ts)
  obtain root dirs fnames where t: "t = (root, dirs, fnames)" by (cases t)
  have w: "walk_entries (t # ts) = map (Pair root) fnames @ walk_entries ts"
    by (simp add: walk_entries_def t)
  show ?case
    unfolding w filter_append scan_entries_append
    by (simp add: t scan_files_entries Cons.IH split: sum.splits)
qed

lemma get_file_info_Inl:
  "get_file_info pf p = Inl e \<longleftrightarrow> path_is_file pf p = Inl e"
  by (auto simp: get_file_info_def file_info_failed_def split: sum.splits)

lemma get_file_info_Inr:
  assumes "get_file_info pf p = Inr r"
  shows "name r = path_name pf p \<and> relpath r = path_str pf p"
  using assms
  by (auto simp: get_file_info_def file_info_failed_def split: sum.splits)

lemma scan_entries_Inl:
  "scan_entries pf xs results = Inl e \<Longrightarrow>
     \<exists>x\<in>set xs. path_is_file pf (entry_path pf x) = Inl e"
proof (induction xs arbitrary: results)
  case Nil
  then show ?case by simp
next
  case (Cons x xs)
  then show ?case
    by (auto simp: get_file_info_Inl split: sum.splits)
qed



lemma scan_entries_lookup:
  "scan_entries pf xs results = Inr m \<Longrightarrow> fmlookup m p = Some r \<Longrightarrow>
     fmlookup results p = Some r \<or>
     (\<exists>x\<in>set xs. p = entry_key pf x \<and> get_file_info pf (entry_path pf x) = Inr r)"
proof (induction xs arbitrary: results)
  case Nil
  then show ?case by simp
next
  case (Cons x xs)
  from Cons.prems(1) obtain info where
    i: "get_file_info pf (entry_path pf x) = Inr info"
    and s: "scan_entries pf xs (fmupd (entry_key pf x) info results) = Inr m"
    by (auto split: sum.splits)
  from Cons.IH [OF s Cons.prems(2)] i show ?case
    by (auto split: if_splits)
qed

lemma scan_folder_walk:
  "path_exists pf (Path pf root) = Inr True \<Longrightarrow>
   scan_folder pf root =
     scan_entries pf (filter (\<lambda>x. \<not> skipped x) (encountered pf root)) fmempty"
  by (simp add: scan_folder_def Let_def scan_walk_entries encountered_def)

lemma scan_folder_Inr_exists:
  "scan_folder pf root = Inr m \<Longrightarrow> path_exists pf (Path pf root) = Inr True"
  by (auto simp: scan_folder_def Let_def split: sum.splits if_splits)

text \<open>
  Claim C8. \<^verbatim>\<open>scan_folder\<close> raises \<^verbatim>\<open>FileNotFoundError\<close> exactly when
  \<^verbatim>\<open>p.exists()\<close> is false for the root, and then it returns no dictionary. The
  two hypotheses are pathlib's: \<^verbatim>\<open>exists()\<close> and \<^verbatim>\<open>is_file()\<close> answer
  \<^verbatim>\<open>False\<close> for a missing path, they do not raise \<^verbatim>\<open>FileNotFoundError\<close>.
\<close>

theorem scan_folder_not_found:
  assumes "\<And>q msg. path_exists pf q \<noteq> Inl (FileNotFoundError msg)"
    and "\<And>q msg. path_is_file pf q \<noteq> Inl (FileNotFoundError msg)"
  shows "((\<exists>msg. scan_folder pf root = Inl (FileNotFoundError msg))
           \<longleftrightarrow> path_exists pf (Path pf root) = Inr False) \<and>
         (path_exists pf (Path pf root) = Inr False \<longrightarrow>
            scan_folder pf root = Inl (FileNotFoundError (''Path not found: '' @ root)) \<and>
            (\<nexists>m. scan_folder pf root = Inr m))"
proof -
  have 1: "scan_folder pf root = Inl (FileNotFoundError (''Path not found: '' @ root))"
    if "path_exists pf (Path pf root) = Inr False"
    using that by (simp add: scan_folder_def Let_def)
  have 2: "path_exists pf (Path pf root) = Inr False"
    if s: "scan_folder pf root = Inl (FileNotFoundError msg)" for msg
  proof (cases "path_exists pf (Path pf root)")
    case (Inl e)
    with s have "e = FileNotFoundError msg" by (simp add: scan_folder_def Let_def)
    with Inl assms(1) show ?thesis by simp
  next
    case (Inr ex)
    show ?thesis
    proof (cases ex)
      case True
      with Inr s have "scan_entries pf (filter (\<lambda>x. \<not> skipped x) (encountered pf root)) fmempty
          = Inl (FileNotFoundError msg)"
        by (simp add: scan_folder_walk)
      from scan_entries_Inl [OF this] assms(2) show ?thesis by blast
    next
      case False
      with Inr show ?thesis by simp
    qed
  qed
  from 1 2 show ?thesis by auto
qed

theorem scan_folder_not_found_witness:
  "path_exists ex_platform (Path ex_platform ''missing'') = Inr False \<and>
   scan_folder ex_platform ''missing'' = Inl (FileNotFoundError ''Path not found: missing'')"
proof -
  have 1: "path_exists ex_platform q \<noteq> Inl (FileNotFoundError msg)" for q msg
    by (simp add: ex_platform_def)
  have 2: "path_is_file ex_platform q \<noteq> Inl (FileNotFoundError msg)" for q msg
    by (simp add: ex_platform_def)
  have 3: "path_exists ex_platform (Path ex_platform ''missing'') = Inr False"
    by (simp add: ex_platform_def)
  from scan_folder_not_found [of ex_platform "''missing''", OF 1 2] 3 show ?thesis
    by simp
qed




text \<open>
  Claim C10. In a dictionary that a scan returns, the record under the key \<open>p\<close>
  has \<^verbatim>\<open>relpath\<close> equal to \<open>p\<close>, and its \<^verbatim>\<open>name\<close> is the \<^verbatim>\<open>.name\<close> of the
  path object of a file of the traversal whose string is \<open>p\<close>; where
  \<^verbatim>\<open>Path(str(q)) == q\<close>, as in pathlib, it is the \<^verbatim>\<open>.name\<close> of \<^verbatim>\<open>Path(p)\<close>.
  The record of a failed stat is built from the same two expressions.
\<close>

theorem scan_folder_key_record:
  assumes "scan_folder pf root = Inr m" and "fmlookup m p = Some r"
  shows "relpath r = p \<and>
         (\<exists>x\<in>set (encountered pf root).
            p = path_str pf (entry_path pf x) \<and> name r = path_name pf (entry_path pf x)) \<and>
         ((\<forall>q. Path pf (path_str pf q) = q) \<longrightarrow> name r = path_name pf (Path pf p))"
proof -
  let ?kept = "filter (\<lambda>x. \<not> skipped x) (encountered pf root)"
  from assms(1) have "scan_entries pf ?kept fmempty = Inr m"
    using scan_folder_Inr_exists [OF assms(1)] by (simp add: scan_folder_walk)
  from scan_entries_lookup [OF this assms(2)] obtain x where
    x: "x \<in> set (encountered pf root)" "p = entry_key pf x"
    "get_file_info pf (entry_path pf x) = Inr r"
    by auto
  from get_file_info_Inr [OF x(3)] x(1,2) show ?thesis
    by (auto simp: entry_key_def)
qed

theorem scan_folder_key_record_witness:
  "scan_folder ex_platform ''root'' = Inr ex_scan \<and>
   (\<exists>r. fmlookup ex_scan ''root/sub/b.txt'' = Some r \<and>
        relpath r = ''root/sub/b.txt'' \<and> name r = ''b.txt'' \<and>
        name r = path_name ex_platform (Path ex_platform ''root/sub/b.txt''))"
proof -
  let ?r = "\<lparr>name = ''b.txt'', relpath = ''root/sub/b.txt'', size' = None, created = None,
        modified = None, accessed = None, is_file = False,
        error = Some ''[Errno 2] No such file or directory''\<rparr>"
  have l: "fmlookup ex_scan ''root/sub/b.txt'' = Some ?r"
    by (simp add: ex_scan_def)
  have rt: "\<forall>q. Path ex_platform (path_str ex_platform q) = q"
    by (simp add: ex_platform_def)
  from scan_folder_key_record [OF ex_scan_folder l] rt l ex_scan_folder show ?thesis
    by simp
qed

section \<open>Properties of the metadata extractor\<close>

text \<open>
  Where \<^verbatim>\<open>path.is_file()\<close> returns, \<^verbatim>\<open>get_file_info\<close> returns a record, and
  after a failed stat it is the record of the \<^verbatim>\<open>except\<close> branch.
\<close>

lemma get_file_info_returns:
  assumes "path_is_file pf p = Inr b"
  shows "\<exists>r. get_file_info pf p = Inr r"
  using assms by (auto simp: get_file_info_def file_info_failed_def split: sum.splits)

lemma get_file_info_stat_failed:
  assumes "path_stat pf p = Inl e" and "path_is_file pf p = Inr b"
  shows "get_file_info pf p =
     Inr \<lparr>name = path_name pf p, relpath = path_str pf p,
          size' = None, created = None, modified = None, accessed = None,
          is_file = b, error = Some (exception_str e)\<rparr>"
  using assms by (simp add: get_file_info_def file_info_failed_def)

text \<open>
  The records that \<^verbatim>\<open>get_file_info\<close> returns: one with \<^verbatim>\<open>error\<close> set has no
  size and no timestamps, one without has a size and a \<^verbatim>\<open>modified\<close> value.
\<close>

lemma human_readable_size_Some:
  "human_readable_size (Some n) = Inr sz \<Longrightarrow> \<exists>s. sz = Some s"
  by (auto simp: human_readable_size_def split: sum.splits)

lemma get_file_info_record_shape:
  assumes "get_file_info pf p = Inr r"
  shows "(error r \<noteq> None \<longrightarrow> failed_record r) \<and>
         (error r = None \<longrightarrow> size' r \<noteq> None \<and> modified r \<noteq> None)"
  using assms
  by (auto simp: get_file_info_def file_info_failed_def failed_record_def
      split: sum.splits dest: human_readable_size_Some)

text \<open>
  Claim C5 says that \<^verbatim>\<open>get_file_info\<close> never raises and that an unreadable
  file never aborts a scan. The \<^verbatim>\<open>except\<close> branch calls \<^verbatim>\<open>path.is_file()\<close>
  outside any \<^verbatim>\<open>try\<close>. For a file in a folder that may not be searched,
  \<^verbatim>\<open>path.stat()\<close> raises \<^verbatim>\<open>PermissionError\<close>, the branch is entered,
  \<^verbatim>\<open>path.is_file()\<close> raises the same error, and it leaves \<^verbatim>\<open>get_file_info\<close>
  and \<^verbatim>\<open>scan_folder\<close>.
\<close>

theorem get_file_info_raises:
  "path_stat ex_platform_denied ''root/sub/b.txt'' = Inl ex_denied \<and>
   get_file_info ex_platform_denied ''root/sub/b.txt'' = Inl ex_denied \<and>
   scan_folder ex_platform_denied ''root'' = Inl ex_denied"
  by code_simp

section \<open>Properties of the baseline store\<close>

text \<open>
  Claim C4, as stated: when a save fails partway, no half-written record is left
  and the baseline stored before remains intact and readable. It fails: the
  file is opened with mode \<^verbatim>\<open>"w"\<close>, which truncates it, and written in place.
  After the failed save the file of \<^verbatim>\<open>root\<close> holds the first nine characters of
  the new record, and loading it raises.
\<close>

theorem save_baseline_for_counterexample:
  "ex_dir (baseline_file ex_codec ''root'')
     = Some ''{folder: root, created_at: 2024-01-01T00:00:00, files: 5}'' \<and>
   load_baseline_for ex_codec ex_dir ''root''
     = Inr (Some \<lparr>folder = ''root'', created_at = ''2024-01-01T00:00:00'',
                  files = ex_baseline\<rparr>) \<and>
   snd ex_failed_save = Inl ex_disk_full \<and>
   fst ex_failed_save (baseline_file ex_codec ''root'') = Some ''{folder: '' \<and>
   load_baseline_for ex_codec (fst ex_failed_save) ''root''
     = Inl (ValueError ''Expecting value'')"
proof -
  have 1: "ex_dir (baseline_file ex_codec ''root'')
     = Some ''{folder: root, created_at: 2024-01-01T00:00:00, files: 5}''"
    by code_simp
  have 2: "snd ex_failed_save = Inl ex_disk_full"
    by (simp add: ex_failed_save_def save_baseline_for_def Let_def)
  have 3: "fst ex_failed_save (baseline_file ex_codec ''root'') = Some ''{folder: ''"
    by (simp add: ex_failed_save_def save_baseline_for_def Let_def ex_codec_def)
  from 1 2 3 show ?thesis
    by (simp add: load_baseline_for_def) (simp add: ex_codec_def)
qed

text \<open>
  Claim C4, amended. When \<^verbatim>\<open>save_baseline_for\<close> raises, either \<^verbatim>\<open>open\<close> failed
  and the directory is as before, or a write failed and the file of this folder
  holds the part of the new record written so far, in place of what it held. The
  files of other folders are as before.
\<close>

theorem save_baseline_for_failure:
  assumes "save_baseline_for cd fault now dir path_s data = (dir', Inl e)"
  shows "(fault = OpenFails e \<and> dir' = dir \<or>
          (\<exists>k. fault = WriteFails k e \<and>
             dir' (baseline_file cd path_s) =
               Some (take k (json_dumps cd
                 \<lparr>folder = path_s, created_at = now, files = data\<rparr>)))) \<and>
         (\<forall>fp. fp \<noteq> baseline_file cd path_s \<longrightarrow> dir' fp = dir fp)"
  using assms
  by (cases fault) (auto simp: save_baseline_for_def Let_def)

theorem save_baseline_for_failure_witness:
  "snd ex_failed_save = Inl ex_disk_full \<and>
   fst ex_failed_save (baseline_file ex_codec ''root'') = Some ''{folder: '' \<and>
   fst ex_failed_save ''other.json'' = ex_dir ''other.json''"
proof -
  have s: "save_baseline_for ex_codec (WriteFails 9 ex_disk_full) ''2024-02-01T00:00:00''
       ex_dir ''root'' ex_current = (fst ex_failed_save, Inl ex_disk_full)"
    by (simp add: ex_failed_save_def save_baseline_for_def Let_def)
  have n: "''other.json'' \<noteq> baseline_file ex_codec ''root''"
    by (simp add: baseline_file_def safe_name_hash_def ex_codec_def)
  have t: "take 9 (json_dumps ex_codec
      \<lparr>folder = ''root'', created_at = ''2024-02-01T00:00:00'', files = ex_current\<rparr>)
      = ''{folder: ''"
    by (simp add: ex_codec_def)
  have "snd ex_failed_save = Inl ex_disk_full"
    by (simp add: ex_failed_save_def save_baseline_for_def Let_def)
  with save_baseline_for_failure [OF s] n t show ?thesis
    by simp
qed

section \<open>Properties of size formatting\<close>

lemma ex_size_1536: "human_readable_size (Some 1536) = Inr (Some ''1.50 KB'')"
  by code_simp

lemma round_half_even_one: "round_half_even a 1 = a"
  by (simp add: round_half_even_def)

lemma round_half_even_near:
  assumes "0 < b"
  shows "2 * \<bar>round_half_even a b * b - a\<bar> \<le> b"
proof -
  define q r where "q = a div b" and "r = a mod b"
  have a: "a = q * b + r" by (simp add: q_def r_def)
  have r: "0 \<le> r" "r < b" using assms by (simp_all add: r_def)
  show ?thesis
  proof (cases "b < 2 * r \<or> (2 * r = b \<and> odd q)")
    case True
    then have "round_half_even a b = q + 1"
      by (simp add: round_half_even_def q_def r_def Let_def)
    then have "round_half_even a b * b - a = b - r"
      by (simp add: a algebra_simps)
    with True r show ?thesis by auto
  next
    case False
    then have "round_half_even a b = q"
      by (simp add: round_half_even_def q_def r_def Let_def)
    then have "round_half_even a b * b - a = - r"
      by (simp add: a)
    with False r show ?thesis by auto
  qed
qed

lemma round_half_even_bounds:
  "a div b \<le> round_half_even a b" "round_half_even a b \<le> a div b + 1"
  by (simp_all add: round_half_even_def Let_def)

lemma bit_length_0: "bit_length 0 = 0"
  by (simp add: bit_length.simps [of 0])

lemma bit_length_pos: "0 < n \<Longrightarrow> bit_length n = Suc (bit_length (n div 2))"
  by (simp add: bit_length.simps [of n])

lemma bit_length_bounds:
  "0 < n \<Longrightarrow> 2 ^ (bit_length n - 1) \<le> n \<and> n < 2 ^ bit_length n"
proof (induction n rule: bit_length.induct)
  case (1 n)
  note bl = bit_length_pos [OF "1.prems"]
  show ?case
  proof (cases "n div 2 = 0")
    case True
    with "1.prems" have "n = 1" by (auto simp: div_eq_0_iff)
    with True show ?thesis unfolding bl by (simp add: bit_length_0)
  next
    case False
    with "1.IH" "1.prems" have ih: "2 ^ (bit_length (n div 2) - 1) \<le> n div 2"
      "n div 2 < 2 ^ bit_length (n div 2)" by auto
    from False have "0 < n div 2" by simp
    from bit_length_pos [OF this] obtain j where j: "bit_length (n div 2) = Suc j"
      by blast
    from ih show ?thesis unfolding bl j by auto
  qed
qed

lemma bit_length_le:
  assumes "n < 2 ^ k"
  shows "bit_length n \<le> k"
proof (cases "n = 0")
  case True
  then show ?thesis by (simp add: bit_length_0)
next
  case False
  then have "0 < n" by simp
  from bit_length_bounds [OF this] assms have "(2::nat) ^ (bit_length n - 1) < 2 ^ k"
    by linarith
  then have "bit_length n - 1 < k" by simp
  then show ?thesis by linarith
qed

lemma bit_length_gt:
  assumes "2 ^ k \<le> n"
  shows "k < bit_length n"
proof -
  have "0 < n" using assms by (cases "n = 0") auto
  from bit_length_bounds [OF this] assms have "(2::nat) ^ k < 2 ^ bit_length n"
    by linarith
  then show ?thesis by simp
qed

lemma round_to_double_exact:
  assumes "0 \<le> n" and "n < 2 ^ 53"
  shows "round_to_double n = n"
proof -
  from assms have "nat \<bar>n\<bar> < 2 ^ 53"
    by (simp add: nat_less_iff)
  then have "bit_length (nat \<bar>n\<bar>) - 53 = 0"
    using bit_length_le [of "nat \<bar>n\<bar>" 53] by simp
  with assms(1) show ?thesis
    by (simp add: round_to_double_def Let_def round_half_even_one sgn_if)
qed

lemma div_lower:
  fixes b c n :: int
  assumes "0 < b" and "c * b \<le> n"
  shows "c \<le> n div b"
proof -
  from zdiv_mono1 [OF assms(2) assms(1)] have "c * b div b \<le> n div b" .
  with assms(1) show ?thesis by simp
qed

lemma round_up_bounds:
  fixes b c n :: int
  assumes "0 < b" and "c * b \<le> n" and "0 \<le> c"
  shows "c * b \<le> round_half_even n b * b" and "round_half_even n b * b \<le> n + b"
proof -
  have "c \<le> round_half_even n b"
    using div_lower [OF assms(1,2)] round_half_even_bounds(1) [of n b] by linarith
  with assms(1) show "c * b \<le> round_half_even n b * b"
    by (simp add: mult_right_mono)
  have "round_half_even n b * b \<le> (n div b + 1) * b"
    using round_half_even_bounds(2) [of n b] assms(1) by (simp add: mult_right_mono)
  also have "\<dots> = n div b * b + b" by (simp add: algebra_simps)
  also have "\<dots> \<le> n + b"
    using assms(1) by (simp add: div_mult_self4 [symmetric] minus_mod_eq_div_mult [symmetric])
  finally show "round_half_even n b * b \<le> n + b" .
qed

lemma round_to_double_bounds:
  assumes "2 ^ 53 \<le> n"
  shows "2 ^ 53 \<le> round_to_double n" and "round_to_double n \<le> 2 * n"
proof -
  define e where "e = bit_length (nat \<bar>n\<bar>) - 53"
  define b :: int where "b = 2 ^ e"
  define c :: int where "c = 2 ^ 52"
  have n: "0 < n" using assms by (simp add: less_le_trans [of 0 "2 ^ 53"])
  have "(2::nat) ^ 53 \<le> nat \<bar>n\<bar>"
    using assms n by (simp add: le_nat_iff)
  from bit_length_gt [OF this] have bl: "bit_length (nat n) = 53 + e" and e: "1 \<le> e"
    using n by (simp_all add: e_def)
  have "0 < nat n" using n by simp
  from bit_length_bounds [OF this] bl have "(2::nat) ^ (52 + e) \<le> nat n"
    by simp
  then have "int (2 ^ (52 + e)) \<le> int (nat n)"
    by (rule iffD2 [OF of_nat_le_iff])
  then have lo: "c * b \<le> n"
    using n by (simp add: power_add c_def b_def)
  have b: "0 < b" "2 \<le> b"
    using e self_le_power [of 2 e] by (simp_all add: b_def)
  have r: "round_to_double n = round_half_even n b * b"
    using n by (simp add: round_to_double_def Let_def e_def b_def)
  have c: "0 \<le> c" "0 < c" by (simp_all add: c_def)
  have "2 ^ 53 = c * 2" by (simp add: c_def)
  also have "\<dots> \<le> c * b" using b(2) c(1) by (rule mult_left_mono)
  also have "\<dots> \<le> round_to_double n"
    unfolding r by (rule round_up_bounds(1) [OF b(1) lo c(1)])
  finally show "2 ^ 53 \<le> round_to_double n" .
  have "b \<le> c * b" using b(1) c(2) by simp
  with lo round_up_bounds(2) [OF b(1) lo c(1)] show "round_to_double n \<le> 2 * n"
    unfolding r by linarith
qed


lemma format_float_near:
  assumes "0 \<le> m"
  shows "\<exists>q. 2 * \<bar>q * 1024 ^ k - 100 * m\<bar> \<le> 1024 ^ k \<and> format_float m k = hundredths q"
proof -
  have "(0::int) < 1024 ^ k" by simp
  from round_half_even_near [OF this, of "100 * m"] assms show ?thesis
    by (auto simp: format_float_def)
qed

lemma hrs_loop_float:
  "hrs_loop [''KB'', ''MB'', ''GB'', ''TB''] (PyFloat m 1) =
     (if m < 1024 ^ 2 then Inr (format_float m 1 @ '' KB'')
      else if m < 1024 ^ 3 then Inr (format_float m 2 @ '' MB'')
      else if m < 1024 ^ 4 then Inr (format_float m 3 @ '' GB'')
      else if m < 1024 ^ 5 then Inr (format_float m 4 @ '' TB'')
      else Inr (format_float m 5 @ '' PB''))"
  by (simp add: numeral_2_eq_2 numeral_3_eq_3 eval_nat_numeral)

lemma human_readable_size_small:
  assumes "0 \<le> n" and "n < 1024"
  shows "human_readable_size (Some n) = Inr (Some (format_float n 0 @ '' B''))"
proof -
  from assms have r: "round_to_double n = n"
    by (intro round_to_double_exact) simp_all
  have "\<not> 2 ^ 1024 \<le> \<bar>n\<bar>"
    using assms by simp
  with assms show ?thesis
    by (simp add: human_readable_size_def r)
qed

lemma human_readable_size_large:
  assumes "1024 \<le> n" and "n < 2 ^ 1024"
  shows "human_readable_size (Some n) =
     (case hrs_loop [''KB'', ''MB'', ''GB'', ''TB''] (PyFloat (round_to_double n) 1) of
        Inl e \<Rightarrow> Inl e | Inr s \<Rightarrow> Inr (Some s))"
proof -
  have m: "0 \<le> round_to_double n \<and> round_to_double n \<le> 2 * n"
  proof (cases "n < 2 ^ 53")
    case True
    with assms(1) have "round_to_double n = n"
      by (intro round_to_double_exact) simp_all
    with assms(1) show ?thesis by simp
  next
    case False
    then have "2 ^ 53 \<le> n" by simp
    from round_to_double_bounds [OF this] show ?thesis by simp
  qed
  with assms(2) have "\<not> 2 ^ 1024 * 1024 \<le> \<bar>round_to_double n\<bar>"
    by simp
  with assms(1) show ?thesis
    by (simp add: human_readable_size_def Let_def)
qed

lemma bit_length_power2: "bit_length (2 ^ k) = Suc k"
proof (induction k)
  case 0
  show ?case by (simp add: bit_length_pos bit_length_0)
next
  case (Suc k)
  have "bit_length (2 ^ Suc k) = Suc (bit_length (2 ^ Suc k div 2))"
    by (rule bit_length_pos) simp
  with Suc show ?case by simp
qed

lemma round_to_double_2_60: "round_to_double (2 ^ 60) = 2 ^ 60"
proof -
  have "nat \<bar>2 ^ 60 :: int\<bar> = 2 ^ 60" by simp
  then have e: "bit_length (nat \<bar>2 ^ 60 :: int\<bar>) - 53 = 8"
    by (simp only: bit_length_power2)
  show ?thesis
    unfolding round_to_double_def Let_def e
    by (simp add: round_half_even_def)
qed

lemma dec_1024: "dec 1024 = ''1024''"
  by (simp add: dec.simps digit_char_def)

lemma ex_size_2_60: "human_readable_size (Some (2 ^ 60)) = Inr (Some ''1024.00 PB'')"
proof -
  have "(1024::int) \<le> 2 ^ 60" "(2::int) ^ 60 < 2 ^ 1024" by simp_all
  note h = human_readable_size_large [OF this, unfolded hrs_loop_float round_to_double_2_60]
  have r: "round_half_even (100 * \<bar>2 ^ 60\<bar>) (1024 ^ 5) = 102400"
    by (simp add: round_half_even_def)
  have d: "hundredths 102400 = ''1024.00''"
    by (simp add: hundredths_def dec_1024 dec2_def digit_char_def)
  have f: "format_float (2 ^ 60) 5 = ''1024.00''"
    unfolding format_float_def r d by simp
  show ?thesis
    unfolding h using f by simp
qed

lemma spec_2_60: "spec_units_below (2 ^ 60) = [] \<and> spec_largest_unit (2 ^ 60) = None"
  by (simp add: spec_units_below_def spec_largest_unit_def upt_rec)

text \<open>
  Claim C6, as stated: for every count, it is rendered in the largest unit in
  which the scaled value is below 1024. It fails: 500 bytes are below 1024 in
  each of the six units, the largest of them is \<^verbatim>\<open>PB\<close>, and
  \<^verbatim>\<open>human_readable_size\<close> renders them in \<^verbatim>\<open>B\<close>, the smallest. And
  \<open>2 ^ 60\<close> bytes are below 1024 in none of the units: they are rendered as
  1024 \<^verbatim>\<open>PB\<close>.
\<close>

theorem human_readable_size_counterexample:
  "human_readable_size (Some 500) = Inr (Some ''500.00 B'') \<and>
   spec_units_below 500 = [0, 1, 2, 3, 4, 5] \<and>
   spec_largest_unit 500 = Some ''PB'' \<and>
   human_readable_size (Some (2 ^ 60)) = Inr (Some ''1024.00 PB'') \<and>
   spec_units_below (2 ^ 60) = [] \<and>
   spec_largest_unit (2 ^ 60) = None"
proof -
  have 1: "human_readable_size (Some 500) = Inr (Some ''500.00 B'')"
    by code_simp
  have 2: "spec_units_below 500 = [0, 1, 2, 3, 4, 5]"
    by code_simp
  have 3: "spec_largest_unit 500 = Some ''PB''"
    by code_simp
  from spec_2_60 have 4: "spec_units_below (2 ^ 60) = []"
    and 5: "spec_largest_unit (2 ^ 60) = None"
    by (rule conjunct1, rule conjunct2)
  show ?thesis
    apply (rule conjI, rule 1)
    apply (rule conjI, rule 2)
    apply (rule conjI, rule 3)
    apply (rule conjI, rule ex_size_2_60)
    apply (rule conjI, rule 4)
    apply (rule 5)
    done
qed

lemma round_to_double_nonneg:
  assumes "0 \<le> n"
  shows "0 \<le> round_to_double n"
proof (cases "n < 2 ^ 53")
  case True
  with assms have "round_to_double n = n" by (intro round_to_double_exact)
  with assms show ?thesis by simp
next
  case False
  then have "2 ^ 53 \<le> n" by simp
  from round_to_double_bounds(1) [OF this] have "(2::int) ^ 53 \<le> round_to_double n" .
  moreover have "(0::int) \<le> 2 ^ 53" by simp
  ultimately show ?thesis by (rule order_trans [rotated])
qed


lemma human_readable_size_choice:
  assumes "0 \<le> n" and "n < 2 ^ 1024"
  shows "\<exists>k. k \<le> 5 \<and> (k < 5 \<longrightarrow> n < 1024 ^ (k + 1)) \<and> (0 < k \<longrightarrow> 1024 ^ k \<le> n) \<and>
          human_readable_size (Some n) =
            Inr (Some (format_float (round_to_double n) k @ '' '' @ size_units ! k))"
proof -
  define m where "m = round_to_double n"
  have ex: "n < 2 ^ 53 \<longrightarrow> m = n"
    using assms(1) by (auto simp: m_def intro: round_to_double_exact)
  have big: "2 ^ 53 \<le> m" if "2 ^ 53 \<le> n"
    using round_to_double_bounds(1) [OF that] by (simp add: m_def)
  show ?thesis
  proof (cases "n < 1024")
    case True
    with assms(1) ex have "m = n" by simp
    then have "human_readable_size (Some n) = Inr (Some (format_float m 0 @ '' '' @ size_units ! 0))"
      using human_readable_size_small [OF assms(1) True] by (simp add: size_units_def)
    with True show ?thesis
      unfolding m_def by (intro exI [of _ 0]) simp
  next
    case False
    then have n: "1024 \<le> n" by simp
    note h = human_readable_size_large [OF n assms(2), folded m_def, unfolded hrs_loop_float]
    have rel: "m < c \<longleftrightarrow> n < c" if "c \<le> 2 ^ 53" for c
      using ex big that by (cases "n < 2 ^ 53") auto
    have r2: "m < 1024 ^ 2 \<longleftrightarrow> n < 1024 ^ 2" by (rule rel) simp
    have r3: "m < 1024 ^ 3 \<longleftrightarrow> n < 1024 ^ 3" by (rule rel) simp
    have r4: "m < 1024 ^ 4 \<longleftrightarrow> n < 1024 ^ 4" by (rule rel) simp
    have r5: "m < 1024 ^ 5 \<longleftrightarrow> n < 1024 ^ 5" by (rule rel) simp
    note h' = h [unfolded r2 r3 r4 r5]
    consider "n < 1024 ^ 2" | "1024 ^ 2 \<le> n" "n < 1024 ^ 3" | "1024 ^ 3 \<le> n" "n < 1024 ^ 4"
      | "1024 ^ 4 \<le> n" "n < 1024 ^ 5" | "1024 ^ 5 \<le> n"
      by linarith
    then show ?thesis
    proof cases
      case 1
      then have "human_readable_size (Some n) = Inr (Some (format_float m 1 @ '' '' @ size_units ! 1))"
        using h' by (simp add: size_units_def)
      with 1 n show ?thesis
        unfolding m_def by (intro exI [of _ 1]) simp
    next
      case 2
      then have "human_readable_size (Some n) = Inr (Some (format_float m 2 @ '' '' @ size_units ! 2))"
        using h' by (simp add: size_units_def)
      with 2 show ?thesis
        unfolding m_def by (intro exI [of _ 2]) simp
    next
      case 3
      then have "human_readable_size (Some n) = Inr (Some (format_float m 3 @ '' '' @ size_units ! 3))"
        using h' by (simp add: size_units_def)
      with 3 show ?thesis
        unfolding m_def by (intro exI [of _ 3]) simp
    next
      case 4
      then have "human_readable_size (Some n) = Inr (Some (format_float m 4 @ '' '' @ size_units ! 4))"
        using h' by (simp add: size_units_def)
      with 4 show ?thesis
        unfolding m_def by (intro exI [of _ 4]) simp
    next
      case 5
      then have "human_readable_size (Some n) = Inr (Some (format_float m 5 @ '' '' @ size_units ! 5))"
        using h' by (simp add: size_units_def)
      with 5 show ?thesis
        unfolding m_def by (intro exI [of _ 5]) simp
    qed
  qed
qed

text \<open>
  Claim C6, amended. For a byte count \<open>n\<close> from 0 up to (not including)
  \<open>2 ^ 1024\<close>, \<^verbatim>\<open>human_readable_size\<close> returns the text of \<open>q\<close> hundredths, a
  space and the unit of index \<open>k\<close>, where \<open>k\<close> is the first unit in which the
  count scaled by \<open>1024 ^ k\<close> is below 1024, or \<^verbatim>\<open>PB\<close> when there is none, and
  \<open>q\<close> hundredths is the scaled value rounded to two places: \<open>q / 100\<close> is
  within half a hundredth of \<open>d / 1024 ^ k\<close>, for \<open>d\<close> the double nearest to
  \<open>n\<close>, which is \<open>n\<close> itself below \<open>2 ^ 53\<close>.
\<close>

theorem human_readable_size_unit:
  assumes "0 \<le> n" and "n < 2 ^ 1024"
  shows "\<exists>k q. k \<le> 5 \<and>
           (k < 5 \<longrightarrow> n < 1024 ^ (k + 1)) \<and>
           (0 < k \<longrightarrow> 1024 ^ k \<le> n) \<and>
           (n < 2 ^ 53 \<longrightarrow> round_to_double n = n) \<and>
           2 * \<bar>q * 1024 ^ k - 100 * round_to_double n\<bar> \<le> 1024 ^ k \<and>
           human_readable_size (Some n) = Inr (Some (hundredths q @ '' '' @ size_units ! k))"
  using human_readable_size_choice [OF assms]
proof (elim exE conjE)
  fix k
  assume k1: "k \<le> 5" and k2: "k < 5 \<longrightarrow> n < 1024 ^ (k + 1)"
    and k3: "0 < k \<longrightarrow> 1024 ^ k \<le> n"
    and h: "human_readable_size (Some n) =
      Inr (Some (format_float (round_to_double n) k @ '' '' @ size_units ! k))"
  have ex: "n < 2 ^ 53 \<longrightarrow> round_to_double n = n"
    using assms(1) by (auto intro: round_to_double_exact)
  show ?thesis
    using format_float_near [OF round_to_double_nonneg [OF assms(1)], of k]
  proof (elim exE conjE)
    fix q
    assume q: "2 * \<bar>q * 1024 ^ k - 100 * round_to_double n\<bar> \<le> 1024 ^ k"
      and f: "format_float (round_to_double n) k = hundredths q"
    have h': "human_readable_size (Some n)
        = Inr (Some (hundredths q @ '' '' @ size_units ! k))"
      unfolding h f ..
    show ?thesis
      apply (rule exI [of _ k])
      apply (rule exI [of _ q])
      apply (rule conjI, rule k1)
      apply (rule conjI, rule k2)
      apply (rule conjI, rule k3)
      apply (rule conjI, rule ex)
      apply (rule conjI, rule q)
      apply (rule h')
      done
  qed
qed

theorem human_readable_size_unit_witness:
  "(0::int) \<le> 1536 \<and> (1536::int) < 2 ^ 1024 \<and>
   human_readable_size (Some 1536) = Inr (Some ''1.50 KB'') \<and>
   (\<exists>k q. k \<le> 5 \<and>
           (k < 5 \<longrightarrow> 1536 < (1024::int) ^ (k + 1)) \<and>
           (0 < k \<longrightarrow> (1024::int) ^ k \<le> 1536) \<and>
           (1536 < (2::int) ^ 53 \<longrightarrow> round_to_double 1536 = 1536) \<and>
           2 * \<bar>q * 1024 ^ k - 100 * round_to_double 1536\<bar> \<le> 1024 ^ k \<and>
           human_readable_size (Some 1536)
             = Inr (Some (hundredths q @ '' '' @ size_units ! k)))"
proof -
  have a: "(0::int) \<le> 1536" by simp
  have b: "(1536::int) < 2 ^ 1024" by simp
  note t = human_readable_size_unit [OF a b]
  show ?thesis
    apply (rule conjI, rule a)
    apply (rule conjI, rule b)
    apply (rule conjI, rule ex_size_1536)
    apply (rule t)
    done
qed

end
